theory Spec2Isabelle
  imports Main
begin

section \<open>Python values, ordered dictionaries and the object store\<close>

text \<open>
  A value held by a namespace is Python's \<^verbatim>\<open>None\<close> or a \<^verbatim>\<open>str\<close>: \<open>None\<close> is
  \<^verbatim>\<open>None\<close>, \<open>Some s\<close> is the string \<open>s\<close>. Python's truth test (\<^verbatim>\<open>if name\<close>,
  \<^verbatim>\<open>not parsed.get(namespace)\<close>) holds of a non-empty string only.
\<close>

type_synonym pyval = "string option"

definition truthy :: "pyval \<Rightarrow> bool" where
  "truthy v = (case v of None \<Rightarrow> False | Some s \<Rightarrow> s \<noteq> [])"

text \<open>
  An \<^verbatim>\<open>OrderedDict\<close> is its list of items in insertion order. \<open>od_set\<close> is
  \<^verbatim>\<open>d[k] = v\<close>: a key already present keeps its place and takes the new value, a new key
  goes to the end. \<open>od_get\<close> is \<^verbatim>\<open>d.get(k)\<close> (and \<^verbatim>\<open>d.get(k, None)\<close>): \<^verbatim>\<open>None\<close> for
  a missing key. \<open>OrderedDict\<close> builds a dictionary from a sequence of pairs, as the
  constructor \<^verbatim>\<open>OrderedDict(pairs)\<close> does, by setting them one after the other.
\<close>

type_synonym odict = "(string \<times> pyval) list"

fun od_set :: "string \<Rightarrow> pyval \<Rightarrow> odict \<Rightarrow> odict" where
  "od_set k v [] = [(k, v)]"
| "od_set k v ((k', v') # d) = (if k = k' then (k, v) # d else (k', v') # od_set k v d)"

definition od_get :: "odict \<Rightarrow> string \<Rightarrow> pyval" where
  "od_get d k = (case map_of d k of None \<Rightarrow> None | Some v \<Rightarrow> v)"

definition od_keys :: "odict \<Rightarrow> string list" where
  "od_keys d = map fst d"

definition OrderedDict :: "(string \<times> pyval) list \<Rightarrow> odict" where
  "OrderedDict pairs = fold (\<lambda>(k, v) d. od_set k v d) pairs []"

text \<open>
  Dictionaries are objects: \<^verbatim>\<open>as_dict\<close> hands out the instance's own dictionary and
  \<^verbatim>\<open>from_name\<close> writes defaults into the dictionary it was given, so the model keeps
  them in a store and instances hold addresses. \<open>alloc\<close> creates a dictionary object,
  \<open>deref\<close> reads one, \<open>store\<close> overwrites one, \<open>dict_setitem\<close> is the statement
  \<^verbatim>\<open>d[k] = v\<close> on the object at an address.
\<close>

type_synonym addr = nat

record heap =
  cells :: "addr \<Rightarrow> odict"
  next_addr :: addr

definition empty_heap :: heap where
  "empty_heap = \<lparr>cells = (\<lambda>_. []), next_addr = 0\<rparr>"

definition deref :: "heap \<Rightarrow> addr \<Rightarrow> odict" where
  "deref h a = cells h a"

definition store :: "heap \<Rightarrow> addr \<Rightarrow> odict \<Rightarrow> heap" where
  "store h a d = h\<lparr>cells := (cells h)(a := d)\<rparr>"

definition alloc :: "heap \<Rightarrow> odict \<Rightarrow> addr \<times> heap" where
  "alloc h d = (next_addr h, h\<lparr>cells := (cells h)(next_addr h := d), next_addr := Suc (next_addr h)\<rparr>)"

definition dict_setitem :: "heap \<Rightarrow> addr \<Rightarrow> string \<Rightarrow> pyval \<Rightarrow> heap" where
  "dict_setitem h a k v = store h a (od_set k v (deref h a))"

section \<open>The class \<^verbatim>\<open>ParsedNamespaces\<close>\<close>

text \<open>
  The three private attributes of an instance. \<open>names\<close> is a reference to the dictionary
  object; \<open>quote_char\<close> and \<open>separator\<close> are documented as single characters
  (``The character used to ...'') and are characters here.
\<close>

record ParsedNamespaces =
  names :: addr
  quote_char :: char
  separator :: char

text \<open>
  Every \<^verbatim>\<open>raise\<close> of the class. The first three are the three \<^verbatim>\<open>ValueError\<close>s of
  \<^verbatim>\<open>from_name\<close>, told apart by the place that raises them: \<open>NotEncapsulated\<close> carries
  the set \<^verbatim>\<open>extra_namespaces\<close>, \<open>TooManyNamespaces\<close> carries the formatted message,
  \<open>BadNameType\<close> is the final \<^verbatim>\<open>else\<close>. \<open>KeyError\<close> is what \<^verbatim>\<open>popitem\<close> raises on an
  empty dictionary.
\<close>

datatype error =
    NotEncapsulated "string set"
  | TooManyNamespaces string
  | BadNameType
  | KeyError

text \<open>The argument \<^verbatim>\<open>name\<close> of \<^verbatim>\<open>from_name\<close>: a string, an instance, or anything else.\<close>

datatype name_arg = Str string | Parsed ParsedNamespaces | Other

subsection \<open>The constructor\<close>

text \<open>
  \<^verbatim>\<open>__init__(self, names, namespaces=None, quote_char, separator)\<close>. A non-empty list
  \<^verbatim>\<open>namespaces\<close> (the test is \<^verbatim>\<open>if namespaces:\<close>, so \<^verbatim>\<open>None\<close> and \<^verbatim>\<open>[]\<close> both
  fail it) builds a new dictionary from \<^verbatim>\<open>names.get(namespace, None)\<close>; otherwise the
  instance keeps the very dictionary it was given.
\<close>

definition ParsedNamespaces_init ::
  "heap \<Rightarrow> addr \<Rightarrow> string list option \<Rightarrow> char \<Rightarrow> char \<Rightarrow> ParsedNamespaces \<times> heap" where
  "ParsedNamespaces_init h nms nss qc sep =
     (case nss of
        None \<Rightarrow> (\<lparr>names = nms, quote_char = qc, separator = sep\<rparr>, h)
      | Some ns \<Rightarrow>
          if ns \<noteq> [] then
            (case alloc h (OrderedDict (map (\<lambda>n. (n, od_get (deref h nms) n)) ns)) of
               (a, h') \<Rightarrow> (\<lparr>names = a, quote_char = qc, separator = sep\<rparr>, h'))
          else (\<lparr>names = nms, quote_char = qc, separator = sep\<rparr>, h))"

subsection \<open>Accessors\<close>

definition as_dict :: "ParsedNamespaces \<Rightarrow> addr" where
  "as_dict self = names self"

definition namespaces :: "heap \<Rightarrow> ParsedNamespaces \<Rightarrow> string list" where
  "namespaces h self = od_keys (deref h (names self))"

text \<open>\<^verbatim>\<open>sep.join(xs)\<close> of Python.\<close>

fun join :: "string \<Rightarrow> string list \<Rightarrow> string" where
  "join s [] = []"
| "join s [x] = x"
| "join s (x # y # xs) = x @ s @ join s (y # xs)"

text \<open>
  The list comprehension of \<^verbatim>\<open>name\<close>: the values of the items whose value is truthy, in
  the dictionary's order.
\<close>

fun resolved_values :: "odict \<Rightarrow> string list" where
  "resolved_values [] = []"
| "resolved_values ((k, v) # d) =
     (case v of
        None \<Rightarrow> resolved_values d
      | Some s \<Rightarrow> if s \<noteq> [] then s # resolved_values d else resolved_values d)"

text \<open>
  The property \<^verbatim>\<open>name\<close>. The string between two components is
  \<^verbatim>\<open>"{qc}.{qc}".format(qc=self.__quote_char)\<close>: the quote character, a full stop, the quote
  character. The attribute \<^verbatim>\<open>__separator\<close> is not read.
\<close>

definition name :: "heap \<Rightarrow> ParsedNamespaces \<Rightarrow> string" where
  "name h self =
     (let nms = resolved_values (deref h (names self)) in
      if length nms = 0 then []
      else [quote_char self]
           @ join [quote_char self, CHR ''.'', quote_char self] nms
           @ [quote_char self])"

definition bool :: "heap \<Rightarrow> ParsedNamespaces \<Rightarrow> bool" where
  "bool h self = (name h self \<noteq> [])"

text \<open>
  The property \<^verbatim>\<open>parent\<close>: copy the dictionary, \<^verbatim>\<open>popitem()\<close> its last item
  (\<^verbatim>\<open>KeyError\<close> when there is none), wrap the copy in a new instance.
\<close>

definition parent :: "heap \<Rightarrow> ParsedNamespaces \<Rightarrow> error + (ParsedNamespaces \<times> heap)" where
  "parent h self =
     (case alloc h (deref h (names self)) of
        (a, h1) \<Rightarrow>
          if deref h1 a = [] then Inl KeyError
          else Inr (ParsedNamespaces_init (store h1 a (butlast (deref h1 a))) a None
                      (quote_char self) (separator self)))"

subsection \<open>The tokenizer\<close>

text \<open>
  The pattern is
  \<^verbatim>\<open>([^{sep}{qc}]+)|{qc}([^`]*?){qc}\<close> with the two characters escaped, and
  \<^verbatim>\<open>findall\<close> scans the name from the left. At each position the first alternative is
  tried first: a longest run of characters that are neither the separator nor the quote
  character. The second alternative is a quote character, then as few characters other
  than a backquote as possible, then a quote character: \<open>quoted_span\<close> reads what
  follows the opening quote and gives the content and the rest of the input, or \<open>None\<close>
  when a backquote or the end of the input comes before the closing quote. A position
  where neither alternative matches is skipped. Each match contributes the text of
  its group (\<^verbatim>\<open>''.join(t)\<close>, the other group being empty).
\<close>

definition backquote :: char where
  "backquote = CHR 0x60"

fun quoted_span :: "char \<Rightarrow> string \<Rightarrow> (string \<times> string) option" where
  "quoted_span qc [] = None"
| "quoted_span qc (c # cs) =
     (if c = qc then Some ([], cs)
      else if c = backquote then None
      else (case quoted_span qc cs of
              None \<Rightarrow> None
            | Some (content, rest) \<Rightarrow> Some (c # content, rest)))"

lemma quoted_span_shorter:
  "quoted_span qc cs = Some (content, rest) \<Longrightarrow> length rest < Suc (length cs)"
  by (induction cs arbitrary: content) (auto split: if_splits option.splits)

function findall :: "char \<Rightarrow> char \<Rightarrow> string \<Rightarrow> string list" where
  "findall sep qc [] = []"
| "findall sep qc (c # cs) =
     (if c \<noteq> sep \<and> c \<noteq> qc then
        (c # takeWhile (\<lambda>x. x \<noteq> sep \<and> x \<noteq> qc) cs)
          # findall sep qc (dropWhile (\<lambda>x. x \<noteq> sep \<and> x \<noteq> qc) cs)
      else if c = qc then
        (case quoted_span qc cs of
           Some (content, rest) \<Rightarrow> content # findall sep qc rest
         | None \<Rightarrow> findall sep qc cs)
      else findall sep qc cs)"
  by pat_completeness auto
termination
  by (relation "measure (\<lambda>(sep, qc, s). length s)")
     (auto simp: less_Suc_eq_le length_dropWhile_le dest: quoted_span_shorter)

subsection \<open>\<^verbatim>\<open>from_name\<close>\<close>

text \<open>
  The list comprehension \<^verbatim>\<open>[(namespace, names.pop() if names else None) for namespace in
  namespaces[::-1]]\<close>: \<open>align\<close> takes the namespaces reversed and the components as the
  stack \<^verbatim>\<open>names.pop()\<close> reads, last component first.
\<close>

fun align :: "string list \<Rightarrow> string list \<Rightarrow> (string \<times> pyval) list" where
  "align [] nms = []"
| "align (n # ns) [] = (n, None) # align ns []"
| "align (n # ns) (x # xs) = (n, Some x) # align ns xs"

text \<open>
  The defaulting loop over \<^verbatim>\<open>namespaces[::-1]\<close> (the list given here is already
  reversed). The second branch is the \<^verbatim>\<open>break\<close>.
\<close>

fun apply_defaults :: "(string \<rightharpoonup> pyval) \<Rightarrow> string list \<Rightarrow> odict \<Rightarrow> odict" where
  "apply_defaults defaults [] parsed = parsed"
| "apply_defaults defaults (n # ns) parsed =
     (if \<not> truthy (od_get parsed n) \<and> defaults n \<noteq> None then
        apply_defaults defaults ns (od_set n (the (defaults n)) parsed)
      else if \<not> truthy (od_get parsed n) then parsed
      else apply_defaults defaults ns parsed)"

text \<open>The message of the \<^verbatim>\<open>ValueError\<close> for a name with too many components.\<close>

definition too_many_message :: "string \<Rightarrow> char \<Rightarrow> string list \<Rightarrow> string" where
  "too_many_message nm sep nss =
     ''Name '' @ [CHR 0x27] @ nm @ [CHR 0x27]
     @ '' has too many namespaces. Should be of form: <''
     @ join [CHR ''>'', sep, CHR ''<''] nss @ ''>.''"

text \<open>
  \<^verbatim>\<open>from_name(name, namespaces, quote_char, separator, defaults)\<close>. A missing or empty
  \<^verbatim>\<open>defaults\<close> is the empty map (\<^verbatim>\<open>defaults = defaults or {}\<close>). \<open>parse_name\<close> is the
  \<^verbatim>\<open>if/elif/else\<close> that binds \<^verbatim>\<open>parsed\<close>: for an instance the dictionary
  \<^verbatim>\<open>name.as_dict()\<close> itself, for a string a new dictionary.
\<close>

definition parse_name ::
  "heap \<Rightarrow> name_arg \<Rightarrow> string list \<Rightarrow> char \<Rightarrow> char \<Rightarrow> error + (addr \<times> heap)" where
  "parse_name h nm nss qc sep =
     (case nm of
        Parsed p \<Rightarrow>
          (let extra_namespaces = set (namespaces h p) - set nss in
           if extra_namespaces \<noteq> {} then Inl (NotEncapsulated extra_namespaces)
           else Inr (as_dict p, h))
      | Str s \<Rightarrow>
          (let nms = (if s \<noteq> [] then findall sep qc s else []) in
           if length nms > length nss then Inl (TooManyNamespaces (too_many_message s sep nss))
           else Inr (alloc h (OrderedDict (rev (align (rev nss) (rev nms))))))
      | Other \<Rightarrow> Inl BadNameType)"

definition from_name ::
  "heap \<Rightarrow> name_arg \<Rightarrow> string list \<Rightarrow> char \<Rightarrow> char \<Rightarrow> (string \<rightharpoonup> pyval)
     \<Rightarrow> error + (ParsedNamespaces \<times> heap)" where
  "from_name h nm nss qc sep defaults =
     (case parse_name h nm nss qc sep of
        Inl e \<Rightarrow> Inl e
      | Inr (parsed, h1) \<Rightarrow>
          Inr (ParsedNamespaces_init
                 (store h1 parsed (apply_defaults defaults (rev nss) (deref h1 parsed)))
                 parsed None qc sep))"

text \<open>
  What a caller sees of a result: the dictionary of the returned instance, and its
  rendered name.
\<close>

definition result_dict :: "error + (ParsedNamespaces \<times> heap) \<Rightarrow> error + odict" where
  "result_dict r = (case r of Inl e \<Rightarrow> Inl e | Inr (p, h) \<Rightarrow> Inr (deref h (names p)))"

definition result_name :: "error + (ParsedNamespaces \<times> heap) \<Rightarrow> error + string" where
  "result_name r = (case r of Inl e \<Rightarrow> Inl e | Inr (p, h) \<Rightarrow> Inr (name h p))"

definition result_namespaces :: "error + (ParsedNamespaces \<times> heap) \<Rightarrow> error + string list" where
  "result_namespaces r = (case r of Inl e \<Rightarrow> Inl e | Inr (p, h) \<Rightarrow> Inr (namespaces h p))"

text \<open>
  The call \<^verbatim>\<open>ParsedNamespaces(names, namespaces, quote_char, separator)\<close> made in an
  empty store on a new dictionary with the items \<open>d\<close>.
\<close>

definition construct ::
  "odict \<Rightarrow> string list option \<Rightarrow> char \<Rightarrow> char \<Rightarrow> ParsedNamespaces \<times> heap" where
  "construct d nss qc sep =
     (case alloc empty_heap d of (a, h) \<Rightarrow> ParsedNamespaces_init h a nss qc sep)"

text \<open>
  Two instances used as examples: \<^verbatim>\<open>ParsedNamespaces(OrderedDict([('table', 't')]))\<close> and
  \<^verbatim>\<open>ParsedNamespaces(OrderedDict([('a', 'x'), ('b', 'y')]), separator='/')\<close>, each with
  the store it lives in.
\<close>

definition table_only :: "ParsedNamespaces \<times> heap" where
  "table_only = construct [(''table'', Some ''t'')] None (CHR 0x22) (CHR ''.'')"

definition slash_pair :: "ParsedNamespaces \<times> heap" where
  "slash_pair = construct [(''a'', Some ''x''), (''b'', Some ''y'')] None (CHR 0x22) (CHR ''/'')"

text \<open>
  The round trip \<^verbatim>\<open>from_name(parsed.name, parsed.namespaces, quote_char, separator)\<close> with
  the quote character and the separator of \<open>parsed\<close> itself and no defaults.
\<close>

definition reparse :: "heap \<Rightarrow> ParsedNamespaces \<Rightarrow> error + (ParsedNamespaces \<times> heap)" where
  "reparse h parsed =
     from_name h (Str (name h parsed)) (namespaces h parsed)
       (quote_char parsed) (separator parsed) Map.empty"

definition result_reparse :: "error + (ParsedNamespaces \<times> heap) \<Rightarrow> error + odict" where
  "result_reparse r = (case r of Inl e \<Rightarrow> Inl e | Inr (p, h) \<Rightarrow> result_dict (reparse h p))"

subsection \<open>The rendering the specification describes\<close>

text \<open>
  The specification's wording of \<^verbatim>\<open>name\<close>, for comparison with the code: the resolved
  values in order, each wrapped in the quote character, with quote character, separator,
  quote character between two of them; the empty string when nothing is resolved.
\<close>

definition name_spec :: "heap \<Rightarrow> ParsedNamespaces \<Rightarrow> string" where
  "name_spec h self =
     (let nms = resolved_values (deref h (names self)) in
      if nms = [] then []
      else [quote_char self]
           @ join [quote_char self, separator self, quote_char self] nms
           @ [quote_char self])"

section \<open>Ordered dictionaries: keys and values\<close>

lemma od_keys_od_set_present:
  "k \<in> set (od_keys d) \<Longrightarrow> od_keys (od_set k v d) = od_keys d"
  by (induction d) (fastforce simp: od_keys_def)+

lemma od_keys_od_set_fresh:
  "k \<notin> set (od_keys d) \<Longrightarrow> od_keys (od_set k v d) = od_keys d @ [k]"
  by (induction d) (auto simp: od_keys_def)

lemma od_keys_od_set:
  "od_keys (od_set k v d) = (if k \<in> set (od_keys d) then od_keys d else od_keys d @ [k])"
  by (simp add: od_keys_od_set_present od_keys_od_set_fresh)

lemma od_get_od_set:
  "od_get (od_set k v d) k' = (if k' = k then v else od_get d k')"
  by (induction d) (auto simp: od_get_def)

lemma od_set_fresh:
  "k \<notin> set (od_keys d) \<Longrightarrow> od_set k v d = d @ [(k, v)]"
  by (induction d) (auto simp: od_keys_def)

lemma remdups_drop_later:
  "k \<in> set ys \<Longrightarrow> remdups (xs @ k # ys) = remdups (xs @ ys)"
  by (induction xs) auto

lemma od_keys_fold:
  "od_keys (fold (\<lambda>(k, v) d. od_set k v d) ps acc)
     = rev (remdups (rev (od_keys acc @ map fst ps)))" if "distinct (od_keys acc)"
  using that
proof (induction ps arbitrary: acc)
  case Nil
  then show ?case by (simp add: remdups_id_iff_distinct [THEN iffD2])
next
  case (Cons a ps)
  obtain k v where a: "a = (k, v)" by (cases a)
  have d: "distinct (od_keys (od_set k v acc))"
    using Cons.prems by (simp add: od_keys_od_set)
  show ?case
  proof (cases "k \<in> set (od_keys acc)")
    case True
    then show ?thesis
      using Cons.IH [OF d] by (simp add: a od_keys_od_set remdups_drop_later)
  next
    case False
    then show ?thesis
      using Cons.IH [OF d] by (simp add: a od_keys_od_set)
  qed
qed

lemma od_keys_OrderedDict:
  "od_keys (OrderedDict ps) = rev (remdups (rev (map fst ps)))"
  using od_keys_fold [of "[]" ps] by (simp add: OrderedDict_def od_keys_def)

lemma od_keys_OrderedDict_distinct:
  "distinct (map fst ps) \<Longrightarrow> od_keys (OrderedDict ps) = map fst ps"
  by (simp add: od_keys_OrderedDict distinct_remdups_id)

lemma fold_od_set_distinct:
  "distinct (od_keys acc @ map fst ps)
     \<Longrightarrow> fold (\<lambda>(k, v) d. od_set k v d) ps acc = acc @ ps"
proof (induction ps arbitrary: acc)
  case Nil
  then show ?case by simp
next
  case (Cons a ps)
  obtain k v where a: "a = (k, v)" by (cases a)
  have fresh: "k \<notin> set (od_keys acc)" using Cons.prems by (auto simp: a)
  have "distinct (od_keys (acc @ [(k, v)]) @ map fst ps)"
    using Cons.prems by (auto simp: a od_keys_def)
  then show ?case
    using Cons.IH [of "acc @ [(k, v)]"] fresh by (simp add: a od_set_fresh)
qed

lemma OrderedDict_distinct:
  "distinct (map fst ps) \<Longrightarrow> OrderedDict ps = ps"
  using fold_od_set_distinct [of "[]" ps] by (simp add: OrderedDict_def od_keys_def)



lemma od_get_absent:
  "k \<notin> set (od_keys d) \<Longrightarrow> od_get d k = None"
  by (simp add: od_get_def od_keys_def map_of_eq_None_iff [THEN iffD2])

lemma apply_defaults_empty:
  "apply_defaults Map.empty rs d = d"
  by (induction rs) auto

lemma od_keys_apply_defaults_present:
  "set rs \<subseteq> set (od_keys d) \<Longrightarrow> od_keys (apply_defaults defaults rs d) = od_keys d"
  by (induction rs arbitrary: d) (auto simp: od_keys_od_set)

lemma od_get_truthy_key:
  "truthy (od_get d n) \<Longrightarrow> n \<in> set (od_keys d)"
proof (rule ccontr)
  assume t: "truthy (od_get d n)" and "n \<notin> set (od_keys d)"
  then have "od_get d n = None" by (simp add: od_get_absent)
  with t show False by (simp add: truthy_def)
qed

lemma od_keys_apply_defaults_extra:
  "\<exists>extra. od_keys (apply_defaults defaults rs d) = od_keys d @ extra
      \<and> set extra \<subseteq> set rs \<and> set extra \<inter> set (od_keys d) = {}
      \<and> (\<forall>n \<in> set extra. defaults n \<noteq> None)"
proof (induction rs arbitrary: d)
  case Nil
  then show ?case by simp
next
  case (Cons n rs)
  show ?case
  proof (cases "\<not> truthy (od_get d n) \<and> defaults n \<noteq> None")
    case True
    let ?d = "od_set n (the (defaults n)) d"
    obtain extra where e: "od_keys (apply_defaults defaults rs ?d) = od_keys ?d @ extra"
      "set extra \<subseteq> set rs" "set extra \<inter> set (od_keys ?d) = {}"
      "\<forall>n \<in> set extra. defaults n \<noteq> None"
      using Cons.IH [of ?d] by blast
    show ?thesis
    proof (cases "n \<in> set (od_keys d)")
      case True
      with e \<open>\<not> truthy (od_get d n) \<and> defaults n \<noteq> None\<close> show ?thesis
        by (intro exI [of _ extra]) (auto simp: od_keys_od_set)
    next
      case False
      with e \<open>\<not> truthy (od_get d n) \<and> defaults n \<noteq> None\<close> show ?thesis
        by (intro exI [of _ "n # extra"]) (auto simp: od_keys_od_set)
    qed
  next
    case False
    obtain extra where e: "od_keys (apply_defaults defaults rs d) = od_keys d @ extra"
      "set extra \<subseteq> set rs" "set extra \<inter> set (od_keys d) = {}"
      "\<forall>n \<in> set extra. defaults n \<noteq> None"
      using Cons.IH [of d] by blast
    show ?thesis
    proof (cases "truthy (od_get d n)")
      case True
      with e show ?thesis by (intro exI [of _ extra]) auto
    next
      case False
      with \<open>\<not> (\<not> truthy (od_get d n) \<and> defaults n \<noteq> None)\<close> show ?thesis
        by (intro exI [of _ "[]"]) auto
    qed
  qed
qed

lemma set_od_keys_apply_defaults:
  "set (od_keys (apply_defaults defaults rs d)) =
     set (od_keys d) \<union> set (takeWhile (\<lambda>n. truthy (od_get d n) \<or> defaults n \<noteq> None) rs)"
proof (induction rs arbitrary: d)
  case Nil
  then show ?case by simp
next
  case (Cons n rs)
  let ?ok = "\<lambda>d n. truthy (od_get d n) \<or> defaults n \<noteq> None"
  show ?case
  proof (cases "\<not> truthy (od_get d n) \<and> defaults n \<noteq> None")
    case True
    let ?d = "od_set n (the (defaults n)) d"
    have same: "?ok ?d = ?ok d"
      using True by (auto simp: od_get_od_set fun_eq_iff)
    have "set (od_keys (apply_defaults defaults rs ?d)) = set (od_keys ?d) \<union> set (takeWhile (?ok d) rs)"
      using Cons.IH [of ?d] unfolding same .
    with True show ?thesis by (auto simp: od_keys_od_set)
  next
    case False
    show ?thesis
    proof (cases "truthy (od_get d n)")
      case True
      then have "n \<in> set (od_keys d)" by (rule od_get_truthy_key)
      with True Cons.IH [of d] show ?thesis by auto
    next
      case nt: False
      with False show ?thesis by auto
    qed
  qed
qed

lemma od_get_apply_defaults:
  "od_get (apply_defaults defaults rs parsed) m =
     (if m \<in> set (takeWhile (\<lambda>n. truthy (od_get parsed n) \<or> defaults n \<noteq> None) rs)
          \<and> \<not> truthy (od_get parsed m)
      then the (defaults m) else od_get parsed m)"
proof (induction rs arbitrary: parsed)
  case Nil
  then show ?case by simp
next
  case (Cons n rs)
  let ?ok = "\<lambda>d n. truthy (od_get d n) \<or> defaults n \<noteq> None"
  show ?case
  proof (cases "\<not> truthy (od_get parsed n) \<and> defaults n \<noteq> None")
    case True
    let ?d = "od_set n (the (defaults n)) parsed"
    have same: "?ok ?d = ?ok parsed"
      using True by (auto simp: od_get_od_set fun_eq_iff)
    show ?thesis
      using True Cons.IH [of ?d] unfolding same
      by (auto simp: od_get_od_set)
  next
    case False
    then show ?thesis using Cons.IH [of parsed] by auto
  qed
qed

lemma map_fst_align: "map fst (align ns xs) = ns"
  by (induction ns xs rule: align.induct) auto

lemma align_nil:
  "align ns [] = zip ns (replicate (length ns) None)"
  by (induction ns) auto

lemma align_zip:
  "align ns xs = zip ns (map Some xs @ replicate (length ns - length xs) None)"
  by (induction ns xs rule: align.induct) (simp_all add: align_nil)

section \<open>The store and the accessors\<close>

lemma deref_store_same: "deref (store h a d) a = d"
  by (simp add: deref_def store_def)

lemma parent_result:
  "parent h self =
     (if deref h (names self) = [] then Inl KeyError
      else Inr (\<lparr>names = next_addr h, quote_char = quote_char self, separator = separator self\<rparr>,
                store (snd (alloc h (deref h (names self)))) (next_addr h)
                  (butlast (deref h (names self)))))"
  by (simp add: parent_def alloc_def deref_def ParsedNamespaces_init_def)

lemma from_name_empty_schema:
  "from_name h nm [] qc sep defaults = Inr (p, h') \<Longrightarrow> deref h' (names p) = []"
  by (cases nm)
     (auto simp: from_name_def parse_name_def ParsedNamespaces_init_def alloc_def store_def
        deref_def OrderedDict_def namespaces_def od_keys_def as_dict_def Let_def
        split: if_splits)

section \<open>\<^verbatim>\<open>parent\<close> on an instance without namespaces\<close>

text \<open>
  Claim C9. \<^verbatim>\<open>parent\<close> of an instance whose mapping is empty raises \<^verbatim>\<open>KeyError\<close>
  (\<^verbatim>\<open>popitem\<close> on the empty copy); such an instance is what \<^verbatim>\<open>from_name\<close> returns for
  an empty schema. On an instance with at least one namespace \<^verbatim>\<open>parent\<close> returns an
  instance, whose namespaces are those of the original without the last.
\<close>

theorem parent_needs_a_namespace:
  "(namespaces h self = [] \<longrightarrow> parent h self = Inl KeyError)
   \<and> (namespaces h self \<noteq> [] \<longrightarrow>
        (\<exists>p h'. parent h self = Inr (p, h')
           \<and> namespaces h' p = butlast (namespaces h self)))
   \<and> (from_name h0 nm [] qc sep defaults = Inr (self, h) \<longrightarrow> parent h self = Inl KeyError)"
proof (intro conjI impI)
  assume "namespaces h self = []"
  then show "parent h self = Inl KeyError"
    by (simp add: parent_result namespaces_def od_keys_def)
next
  assume "namespaces h self \<noteq> []"
  then have "deref h (names self) \<noteq> []"
    by (auto simp: namespaces_def od_keys_def)
  then show "\<exists>p h'. parent h self = Inr (p, h') \<and> namespaces h' p = butlast (namespaces h self)"
    by (simp add: parent_result namespaces_def od_keys_def deref_store_same map_butlast)
next
  assume "from_name h0 nm [] qc sep defaults = Inr (self, h)"
  then have "deref h (names self) = []" by (rule from_name_empty_schema)
  then show "parent h self = Inl KeyError" by (simp add: parent_result)
qed

theorem parent_needs_a_namespace_witness:
  "namespaces (snd (construct [] None (CHR 0x22) (CHR ''.'')))
     (fst (construct [] None (CHR 0x22) (CHR ''.''))) = []
   \<and> parent (snd (construct [] None (CHR 0x22) (CHR ''.'')))
       (fst (construct [] None (CHR 0x22) (CHR ''.''))) = Inl KeyError"
proof -
  have e: "namespaces (snd (construct [] None (CHR 0x22) (CHR ''.'')))
     (fst (construct [] None (CHR 0x22) (CHR ''.''))) = []"
    by (simp add: construct_def ParsedNamespaces_init_def alloc_def empty_heap_def
          namespaces_def od_keys_def deref_def)
  show ?thesis
    using e parent_needs_a_namespace
      [of "snd (construct [] None (CHR 0x22) (CHR ''.''))"
          "fst (construct [] None (CHR 0x22) (CHR ''.''))"]
    by simp
qed

lemma table_only_eq:
  "fst table_only = \<lparr>names = 0, quote_char = CHR 0x22, separator = CHR ''.''\<rparr>"
  "deref (snd table_only) 0 = [(''table'', Some ''t'')]"
  by (simp_all add: table_only_def construct_def alloc_def empty_heap_def
        ParsedNamespaces_init_def deref_def)


lemma deref_alloc: "deref (snd (alloc h d)) (next_addr h) = d"
  by (simp add: alloc_def deref_def)

section \<open>\<^verbatim>\<open>as_dict\<close> hands out the instance's own mapping\<close>

text \<open>
  Claim C3, as stated: a mapping returned by \<^verbatim>\<open>as_dict\<close> can be mutated without any
  effect on a later \<^verbatim>\<open>as_dict\<close> call. It fails: for the instance
  \<^verbatim>\<open>ParsedNamespaces(OrderedDict([('table', 't')]))\<close>, after
  \<^verbatim>\<open>d = p.as_dict(); d['table'] = 'u'\<close> a second \<^verbatim>\<open>p.as_dict()\<close> is not the mapping
  it was before.
\<close>


theorem as_dict_mutation_counterexample:
  "deref (dict_setitem (snd table_only) (as_dict (fst table_only)) ''table'' (Some ''u''))
       (as_dict (fst table_only))
     \<noteq> deref (snd table_only) (as_dict (fst table_only))"
  by (simp add: table_only_eq as_dict_def dict_setitem_def deref_store_same)


text \<open>
  Claim C3, amended. \<^verbatim>\<open>as_dict\<close> returns the dictionary object the instance holds (no
  copy is made), so two calls return the same mapping; an assignment \<^verbatim>\<open>d[k] = v\<close> on the
  returned mapping is an assignment on the instance's mapping: a later \<^verbatim>\<open>as_dict\<close> call
  gives the mapping with \<open>k\<close> set to \<open>v\<close>, and the instance's \<^verbatim>\<open>namespaces\<close> gain the
  key \<open>k\<close> when it is new.
\<close>

theorem as_dict_shares_the_mapping:
  "as_dict self = names self
   \<and> deref (dict_setitem h (as_dict self) k v) (as_dict self) = od_set k v (deref h (as_dict self))
   \<and> od_get (deref (dict_setitem h (as_dict self) k v) (as_dict self)) k = v
   \<and> namespaces (dict_setitem h (as_dict self) k v) self
       = (if k \<in> set (namespaces h self) then namespaces h self else namespaces h self @ [k])"
  by (simp add: as_dict_def dict_setitem_def deref_store_same namespaces_def od_keys_od_set
        od_get_od_set)

theorem as_dict_shares_the_mapping_witness:
  \<open>od_get (deref (dict_setitem (snd table_only) (as_dict (fst table_only)) ''table'' (Some ''u''))
      (as_dict (fst table_only))) ''table'' = Some ''u''
   \<and> name (snd table_only) (fst table_only) = ''"t"''
   \<and> name (dict_setitem (snd table_only) (as_dict (fst table_only)) ''table'' (Some ''u''))
       (fst table_only) = ''"u"''\<close>
proof -
  have a: "od_get (deref (dict_setitem (snd table_only) (as_dict (fst table_only)) ''table'' (Some ''u''))
      (as_dict (fst table_only))) ''table'' = Some ''u''"
    using as_dict_shares_the_mapping
      [of "fst table_only" "snd table_only" "''table''" "Some ''u''"]
    by blast
  have b: \<open>name (snd table_only) (fst table_only) = ''"t"''\<close>
    by (simp add: name_def table_only_eq)
  have c: \<open>name (dict_setitem (snd table_only) (as_dict (fst table_only)) ''table'' (Some ''u''))
       (fst table_only) = ''"u"''\<close>
    by (simp add: name_def table_only_eq as_dict_def dict_setitem_def deref_store_same)
  show ?thesis using a b c by blast
qed

section \<open>The error for a name with too many components\<close>

text \<open>
  Claim C6. \<^verbatim>\<open>from_name\<close> fails with the error for too many namespaces exactly when the
  name is a string whose number of components exceeds the length of the schema; no
  instance is returned then, and the message is
  \<^verbatim>\<open>Name '<name>' has too many namespaces. Should be of form: <n1>sep<n2>...sep<nk>.\<close>,
  which holds the name and the schema form.
\<close>


theorem too_many_namespaces_iff:
  "from_name h nm nss qc sep defaults = Inl (TooManyNamespaces m)
   \<longleftrightarrow> (\<exists>s. nm = Str s \<and> length nss < length (findall sep qc s)
          \<and> m = ''Name '' @ [CHR 0x27] @ s @ [CHR 0x27]
                @ '' has too many namespaces. Should be of form: <''
                @ join [CHR ''>'', sep, CHR ''<''] nss @ ''>.'')"
  by (cases nm)
     (auto simp: from_name_def parse_name_def too_many_message_def Let_def
        split: if_splits prod.splits)

theorem too_many_namespaces_iff_witness:
  "from_name empty_heap (Str ''a.b.c'') [''database'', ''table''] (CHR 0x22) (CHR ''.'') Map.empty
     = Inl (TooManyNamespaces
        (''Name '' @ [CHR 0x27] @ ''a.b.c'' @ [CHR 0x27]
          @ '' has too many namespaces. Should be of form: <database>.<table>.''))"
proof -
  have "findall (CHR ''.'') (CHR 0x22) ''a.b.c'' = [''a'', ''b'', ''c'']" by simp
  then show ?thesis
    using too_many_namespaces_iff [of empty_heap "Str ''a.b.c''" "[''database'', ''table'']"
        "CHR 0x22" "CHR ''.''" Map.empty
        "''Name '' @ [CHR 0x27] @ ''a.b.c'' @ [CHR 0x27]
          @ '' has too many namespaces. Should be of form: <database>.<table>.''"]
    by simp
qed


section \<open>The constructor with an explicit list of namespaces\<close>





section \<open>\<^verbatim>\<open>from_name\<close> step by step\<close>

lemma findall_guard: "(if s \<noteq> [] then findall sep qc s else []) = findall sep qc s"
  by simp

lemma from_name_result:
  "parse_name h nm nss qc sep = Inr (a, h1) \<Longrightarrow>
   from_name h nm nss qc sep defaults =
     Inr (\<lparr>names = a, quote_char = qc, separator = sep\<rparr>,
          store h1 a (apply_defaults defaults (rev nss) (deref h1 a)))"
  by (simp add: from_name_def ParsedNamespaces_init_def)

lemma parse_name_Str:
  "length (findall sep qc s) \<le> length nss \<Longrightarrow>
   parse_name h (Str s) nss qc sep =
     Inr (next_addr h, snd (alloc h (OrderedDict (rev (align (rev nss) (rev (findall sep qc s)))))))"
  by (simp add: parse_name_def findall_guard alloc_def del: findall.simps)

lemma parse_name_Str_overflow:
  "length nss < length (findall sep qc s) \<Longrightarrow>
   parse_name h (Str s) nss qc sep = Inl (TooManyNamespaces (too_many_message s sep nss))"
  by (simp add: parse_name_def findall_guard del: findall.simps)

lemma parse_name_Parsed:
  "parse_name h (Parsed q) nss qc sep =
     (if set (namespaces h q) \<subseteq> set nss then Inr (names q, h)
      else Inl (NotEncapsulated (set (namespaces h q) - set nss)))"
  by (auto simp: parse_name_def Let_def as_dict_def)

lemma from_name_Str:
  "length (findall sep qc s) \<le> length nss \<Longrightarrow>
   result_dict (from_name h (Str s) nss qc sep defaults) =
     Inr (apply_defaults defaults (rev nss)
            (OrderedDict (rev (align (rev nss) (rev (findall sep qc s))))))"
  by (simp add: from_name_result [OF parse_name_Str] result_dict_def deref_store_same deref_alloc)

lemma rev_align:
  "length xs \<le> length ns \<Longrightarrow>
   rev (align (rev ns) (rev xs)) = zip ns (replicate (length ns - length xs) None @ map Some xs)"
proof -
  assume le: "length xs \<le> length ns"
  have "rev (align (rev ns) (rev xs))
      = rev (zip (rev ns) (rev (replicate (length ns - length xs) None @ map Some xs)))"
    by (simp add: align_zip rev_map)
  also have "\<dots> = zip ns (replicate (length ns - length xs) None @ map Some xs)"
    using le by (subst zip_rev) simp_all
  finally show ?thesis .
qed

lemma result_dict_from_name:
  "parse_name h nm nss qc sep = Inr (a, h1) \<Longrightarrow>
   result_dict (from_name h nm nss qc sep defaults) =
     Inr (apply_defaults defaults (rev nss) (deref h1 a))"
  by (simp add: from_name_result result_dict_def deref_store_same)

section \<open>Right alignment of the components\<close>

text \<open>
  Claim C5. For a schema of length \<open>n\<close> and a string that tokenizes to \<open>k \<le> n\<close> components,
  \<^verbatim>\<open>from_name\<close> without defaults returns the mapping built from the schema entries paired,
  in order, with \<open>n - k\<close> times \<^verbatim>\<open>None\<close> followed by the \<open>k\<close> components: the components
  go to the \<open>k\<close> rightmost entries and the \<open>n - k\<close> leftmost are unset. For a schema
  without repeated entries that mapping is the list of these pairs itself.
\<close>

theorem from_name_right_aligns:
  assumes "length (findall sep qc s) \<le> length nss"
  shows "result_dict (from_name h (Str s) nss qc sep Map.empty) =
           Inr (OrderedDict (zip nss
                  (replicate (length nss - length (findall sep qc s)) None
                   @ map Some (findall sep qc s))))
     \<and> (distinct nss \<longrightarrow>
          result_dict (from_name h (Str s) nss qc sep Map.empty) =
            Inr (zip nss
                  (replicate (length nss - length (findall sep qc s)) None
                   @ map Some (findall sep qc s))))"
proof -
  let ?vals = "replicate (length nss - length (findall sep qc s)) None
                 @ map Some (findall sep qc s)"
  have len: "length ?vals = length nss" using assms by simp
  have r: "result_dict (from_name h (Str s) nss qc sep Map.empty) = Inr (OrderedDict (zip nss ?vals))"
    using assms by (simp add: from_name_Str apply_defaults_empty rev_align)
  have "OrderedDict (zip nss ?vals) = zip nss ?vals" if "distinct nss"
    using that len by (intro OrderedDict_distinct) simp
  with r show ?thesis by simp
qed

theorem from_name_right_aligns_witness:
  "result_dict (from_name empty_heap (Str ''my_table'') [''database'', ''schema'', ''table'']
      (CHR 0x22) (CHR ''.'') Map.empty)
    = Inr [(''database'', None), (''schema'', None), (''table'', Some ''my_table'')]"
proof -
  have t: "findall (CHR ''.'') (CHR 0x22) ''my_table'' = [''my_table'']" by simp
  have l: "length (findall (CHR ''.'') (CHR 0x22) ''my_table'')
            \<le> length [''database'', ''schema'', ''table'']"
    unfolding t by simp
  have d: "distinct [''database'', ''schema'', ''table'']" by simp
  have "result_dict (from_name empty_heap (Str ''my_table'') [''database'', ''schema'', ''table'']
      (CHR 0x22) (CHR ''.'') Map.empty)
    = Inr (zip [''database'', ''schema'', ''table'']
        (replicate (length [''database'', ''schema'', ''table'']
             - length (findall (CHR ''.'') (CHR 0x22) ''my_table'')) None
          @ map Some (findall (CHR ''.'') (CHR 0x22) ''my_table'')))"
    using from_name_right_aligns [OF l, of empty_heap] d by blast
  then show ?thesis unfolding t by (simp add: numeral_3_eq_3)
qed

section \<open>The defaulting pass\<close>

text \<open>
  Claim C4. The defaulting pass of \<^verbatim>\<open>from_name\<close> runs over the schema reversed, on the
  mapping that parsing produced. It reaches exactly the namespaces up to, and excluding, the
  first one that is unresolved and has no default: a reached namespace that was unresolved
  takes its default, and every other namespace (the one the pass stops at, and all the more
  general ones) keeps its value. For the schema \<^verbatim>\<open>[a, b, c]\<close> with defaults for \<^verbatim>\<open>a\<close> and
  \<^verbatim>\<open>b\<close>, an input resolving only \<^verbatim>\<open>c\<close> gets both defaults, and an input resolving only
  \<^verbatim>\<open>b\<close> (the string \<^verbatim>\<open>y.""\<close>, or an instance holding only \<^verbatim>\<open>b\<close>) gets none.
\<close>

theorem defaulting_pass:
  "(if m \<in> set (takeWhile (\<lambda>n. truthy (od_get parsed n) \<or> defaults n \<noteq> None) rs)
        \<and> \<not> truthy (od_get parsed m)
    then Some (od_get (apply_defaults defaults rs parsed) m) = defaults m
    else od_get (apply_defaults defaults rs parsed) m = od_get parsed m)
   \<and> (parse_name h nm nss qc sep = Inr (a, h1) \<longrightarrow>
        result_dict (from_name h nm nss qc sep defaults) =
          Inr (apply_defaults defaults (rev nss) (deref h1 a)))
   \<and> result_dict (from_name empty_heap (Str ''z'') [''a'', ''b'', ''c''] (CHR 0x22) (CHR ''.'')
         [''a'' \<mapsto> Some ''A'', ''b'' \<mapsto> Some ''B''])
       = Inr [(''a'', Some ''A''), (''b'', Some ''B''), (''c'', Some ''z'')]
   \<and> result_dict (from_name empty_heap (Str (''y.'' @ [CHR 0x22, CHR 0x22])) [''a'', ''b'', ''c'']
         (CHR 0x22) (CHR ''.'') [''a'' \<mapsto> Some ''A'', ''b'' \<mapsto> Some ''B''])
       = Inr [(''a'', None), (''b'', Some ''y''), (''c'', Some [])]
   \<and> result_dict (from_name
         (snd (construct [(''a'', None), (''b'', Some ''y''), (''c'', None)] None (CHR 0x22) (CHR ''.'')))
         (Parsed (fst (construct [(''a'', None), (''b'', Some ''y''), (''c'', None)] None
                        (CHR 0x22) (CHR ''.''))))
         [''a'', ''b'', ''c''] (CHR 0x22) (CHR ''.'') [''a'' \<mapsto> Some ''A'', ''b'' \<mapsto> Some ''B''])
       = Inr [(''a'', None), (''b'', Some ''y''), (''c'', None)]"
proof (intro conjI)
  show "if m \<in> set (takeWhile (\<lambda>n. truthy (od_get parsed n) \<or> defaults n \<noteq> None) rs)
        \<and> \<not> truthy (od_get parsed m)
    then Some (od_get (apply_defaults defaults rs parsed) m) = defaults m
    else od_get (apply_defaults defaults rs parsed) m = od_get parsed m"
  proof (cases "m \<in> set (takeWhile (\<lambda>n. truthy (od_get parsed n) \<or> defaults n \<noteq> None) rs)
        \<and> \<not> truthy (od_get parsed m)")
    case True
    then have "truthy (od_get parsed m) \<or> defaults m \<noteq> None"
      using set_takeWhileD by fastforce
    with True have "defaults m \<noteq> None" by blast
    with True show ?thesis by (auto simp: od_get_apply_defaults)
  next
    case False
    then show ?thesis by (auto simp: od_get_apply_defaults)
  qed
next
  show "parse_name h nm nss qc sep = Inr (a, h1) \<longrightarrow>
        result_dict (from_name h nm nss qc sep defaults) =
          Inr (apply_defaults defaults (rev nss) (deref h1 a))"
    by (simp add: result_dict_from_name)
next
  show "result_dict (from_name empty_heap (Str ''z'') [''a'', ''b'', ''c''] (CHR 0x22) (CHR ''.'')
         [''a'' \<mapsto> Some ''A'', ''b'' \<mapsto> Some ''B''])
       = Inr [(''a'', Some ''A''), (''b'', Some ''B''), (''c'', Some ''z'')]"
    by (simp add: result_dict_def from_name_def parse_name_def alloc_def empty_heap_def
          OrderedDict_def store_def deref_def ParsedNamespaces_init_def od_get_def truthy_def)
next
  show "result_dict (from_name empty_heap (Str (''y.'' @ [CHR 0x22, CHR 0x22])) [''a'', ''b'', ''c'']
         (CHR 0x22) (CHR ''.'') [''a'' \<mapsto> Some ''A'', ''b'' \<mapsto> Some ''B''])
       = Inr [(''a'', None), (''b'', Some ''y''), (''c'', Some [])]"
    by (simp add: result_dict_def from_name_def parse_name_def alloc_def empty_heap_def
          OrderedDict_def store_def deref_def ParsedNamespaces_init_def od_get_def truthy_def)
next
  show "result_dict (from_name
         (snd (construct [(''a'', None), (''b'', Some ''y''), (''c'', None)] None (CHR 0x22) (CHR ''.'')))
         (Parsed (fst (construct [(''a'', None), (''b'', Some ''y''), (''c'', None)] None
                        (CHR 0x22) (CHR ''.''))))
         [''a'', ''b'', ''c''] (CHR 0x22) (CHR ''.'') [''a'' \<mapsto> Some ''A'', ''b'' \<mapsto> Some ''B''])
       = Inr [(''a'', None), (''b'', Some ''y''), (''c'', None)]"
    by (simp add: result_dict_def from_name_def parse_name_def alloc_def empty_heap_def
          construct_def namespaces_def od_keys_def as_dict_def
          OrderedDict_def store_def deref_def ParsedNamespaces_init_def od_get_def truthy_def)
qed

theorem defaulting_pass_witness:
  "od_get (apply_defaults [''a'' \<mapsto> Some ''A'', ''b'' \<mapsto> Some ''B''] [''c'', ''b'', ''a'']
      [(''a'', None), (''b'', None), (''c'', Some ''z'')]) ''a'' = Some ''A''
   \<and> od_get (apply_defaults [''a'' \<mapsto> Some ''A'', ''b'' \<mapsto> Some ''B''] [''c'', ''b'', ''a'']
      [(''a'', None), (''b'', Some ''y''), (''c'', None)]) ''a'' = None"
proof -
  let ?D = "[''a'' \<mapsto> Some ''A'', ''b'' \<mapsto> Some ''B'']"
  let ?p1 = "[(''a'', None), (''b'', None), (''c'', Some ''z'')]"
  let ?p2 = "[(''a'', None), (''b'', Some ''y''), (''c'', None)]"
  have c1: "''a'' \<in> set (takeWhile (\<lambda>n. truthy (od_get ?p1 n) \<or> ?D n \<noteq> None) [''c'', ''b'', ''a''])
        \<and> \<not> truthy (od_get ?p1 ''a'')"
    by (simp add: od_get_def truthy_def)
  have c2: "\<not> (''a'' \<in> set (takeWhile (\<lambda>n. truthy (od_get ?p2 n) \<or> ?D n \<noteq> None) [''c'', ''b'', ''a''])
        \<and> \<not> truthy (od_get ?p2 ''a''))"
    by (simp add: od_get_def truthy_def)
  have "Some (od_get (apply_defaults ?D [''c'', ''b'', ''a''] ?p1) ''a'') = ?D ''a''"
    using defaulting_pass [of "''a''" ?p1 ?D "[''c'', ''b'', ''a'']"] c1 by presburger
  moreover have "od_get (apply_defaults ?D [''c'', ''b'', ''a''] ?p2) ''a'' = od_get ?p2 ''a''"
    using defaulting_pass [of "''a''" ?p2 ?D "[''c'', ''b'', ''a'']"] c2 by presburger
  ultimately show ?thesis by (simp add: od_get_def)
qed

section \<open>The keys of a parsed instance\<close>

text \<open>
  Claim C1, as stated: whatever the kind of \<^verbatim>\<open>name\<close>, the keys of the instance that
  \<^verbatim>\<open>from_name\<close> returns are the schema. It fails for an instance as \<^verbatim>\<open>name\<close>: with
  \<^verbatim>\<open>p = ParsedNamespaces(OrderedDict([('table', 't')]))\<close>, the call
  \<^verbatim>\<open>from_name(p, ['database', 'table'])\<close> returns an instance whose only key is
  \<^verbatim>\<open>table\<close>.
\<close>

theorem from_name_parsed_keys_counterexample:
  "result_namespaces (from_name (snd table_only) (Parsed (fst table_only))
       [''database'', ''table''] (CHR 0x22) (CHR ''.'') Map.empty) = Inr [''table'']
   \<and> result_namespaces (from_name (snd table_only) (Parsed (fst table_only))
       [''database'', ''table''] (CHR 0x22) (CHR ''.'') Map.empty) \<noteq> Inr [''database'', ''table'']"
proof -
  have pn: "parse_name (snd table_only) (Parsed (fst table_only)) [''database'', ''table'']
      (CHR 0x22) (CHR ''.'') = Inr (0, snd table_only)"
    by (simp add: parse_name_Parsed namespaces_def od_keys_def table_only_eq)
  show ?thesis
    unfolding result_namespaces_def from_name_result [OF pn]
    by (simp add: namespaces_def od_keys_def deref_store_same table_only_eq od_get_def truthy_def)
qed

text \<open>
  Claim C1, amended. Every key of an instance that \<^verbatim>\<open>from_name\<close> returns is a schema
  entry. When \<^verbatim>\<open>name\<close> is a string, the keys are the schema entries in schema order (a
  repeated entry once, at its first position), so exactly the schema when it has no
  repeated entry. When \<^verbatim>\<open>name\<close> is an instance, its keys are kept, in their order, and a
  schema entry that the instance lacks is a key of the result exactly when the defaulting
  pass reaches it: an entry that the instance lacks and that has no default is missing
  from the result, and when no lacking entry has a default the keys of the result are
  exactly the keys of the instance.
\<close>

theorem from_name_keys:
  "(from_name h (Str s) nss qc sep defaults = Inr (p, h') \<longrightarrow>
      namespaces h' p = rev (remdups (rev nss)) \<and> (distinct nss \<longrightarrow> namespaces h' p = nss))
   \<and> (from_name h (Parsed q) nss qc sep defaults = Inr (p, h') \<longrightarrow>
        set (namespaces h' p) \<subseteq> set nss
      \<and> filter (\<lambda>n. n \<in> set (namespaces h q)) (namespaces h' p) = namespaces h q
      \<and> (\<forall>n. n \<in> set (namespaces h' p) \<longleftrightarrow>
              n \<in> set (namespaces h q)
              \<or> n \<in> set (takeWhile (\<lambda>n. truthy (od_get (deref h (names q)) n) \<or> defaults n \<noteq> None)
                           (rev nss)))
      \<and> (\<forall>n. n \<notin> set (namespaces h q) \<and> defaults n = None \<longrightarrow> n \<notin> set (namespaces h' p))
      \<and> ((\<forall>n \<in> set nss. n \<notin> set (namespaces h q) \<longrightarrow> defaults n = None) \<longrightarrow>
            namespaces h' p = namespaces h q))"
proof (intro conjI impI)
  assume r: "from_name h (Str s) nss qc sep defaults = Inr (p, h')"
  have le: "length (findall sep qc s) \<le> length nss"
  proof (rule ccontr)
    assume "\<not> ?thesis"
    then have "parse_name h (Str s) nss qc sep = Inl (TooManyNamespaces (too_many_message s sep nss))"
      by (simp add: parse_name_Str_overflow)
    with r show False by (simp add: from_name_def)
  qed
  let ?d = "OrderedDict (rev (align (rev nss) (rev (findall sep qc s))))"
  have "result_dict (from_name h (Str s) nss qc sep defaults) = Inr (apply_defaults defaults (rev nss) ?d)"
    using le by (rule from_name_Str)
  with r have d: "deref h' (names p) = apply_defaults defaults (rev nss) ?d"
    by (simp add: result_dict_def)
  have k0: "od_keys ?d = rev (remdups (rev nss))"
    by (simp add: od_keys_OrderedDict map_fst_align rev_map [symmetric])
  have "set (rev nss) \<subseteq> set (od_keys ?d)" by (simp add: k0)
  then have "od_keys (apply_defaults defaults (rev nss) ?d) = od_keys ?d"
    by (rule od_keys_apply_defaults_present)
  with d k0 show k: "namespaces h' p = rev (remdups (rev nss))"
    by (simp add: namespaces_def)
  show "namespaces h' p = nss" if "distinct nss"
    using k that by (simp add: distinct_remdups_id)
next
  assume r: "from_name h (Parsed q) nss qc sep defaults = Inr (p, h')"
  let ?d = "deref h (names q)"
  have sub: "set (namespaces h q) \<subseteq> set nss"
    using r by (auto simp: from_name_def parse_name_Parsed split: if_splits)
  then have pn: "parse_name h (Parsed q) nss qc sep = Inr (names q, h)"
    by (simp add: parse_name_Parsed)
  from r from_name_result [OF pn, of defaults]
  have p: "p = \<lparr>names = names q, quote_char = qc, separator = sep\<rparr>"
    and h': "h' = store h (names q) (apply_defaults defaults (rev nss) ?d)"
    by simp_all
  have after: "namespaces h' p = od_keys (apply_defaults defaults (rev nss) ?d)"
    by (simp add: namespaces_def p h' deref_store_same)
  have before: "namespaces h q = od_keys ?d"
    by (simp add: namespaces_def)
  obtain extra where e: "od_keys (apply_defaults defaults (rev nss) ?d) = od_keys ?d @ extra"
      "set extra \<subseteq> set (rev nss)" "set extra \<inter> set (od_keys ?d) = {}"
      "\<forall>n \<in> set extra. defaults n \<noteq> None"
    using od_keys_apply_defaults_extra [of defaults "rev nss" ?d] by (elim exE conjE)
  have ks: "namespaces h' p = namespaces h q @ extra"
    by (simp add: after before e)
  show "set (namespaces h' p) \<subseteq> set nss"
    using ks e(2) sub by auto
  have "filter (\<lambda>n. n \<in> set (namespaces h q)) extra = []"
    using e(3) by (auto simp: before filter_empty_conv)
  then show "filter (\<lambda>n. n \<in> set (namespaces h q)) (namespaces h' p) = namespaces h q"
    by (simp add: ks)
  show "\<forall>n. n \<in> set (namespaces h' p) \<longleftrightarrow>
          n \<in> set (namespaces h q)
          \<or> n \<in> set (takeWhile (\<lambda>n. truthy (od_get ?d n) \<or> defaults n \<noteq> None) (rev nss))"
    by (simp add: after before set_od_keys_apply_defaults)
  show "\<forall>n. n \<notin> set (namespaces h q) \<and> defaults n = None \<longrightarrow> n \<notin> set (namespaces h' p)"
    using e(4) by (auto simp: ks)
  show "namespaces h' p = namespaces h q"
    if "\<forall>n \<in> set nss. n \<notin> set (namespaces h q) \<longrightarrow> defaults n = None"
  proof -
    have "extra = []"
    proof (rule ccontr)
      assume "extra \<noteq> []"
      then obtain n where n: "n \<in> set extra" by (cases extra) auto
      have a: "n \<in> set nss" using n e(2) by auto
      have b: "n \<notin> set (namespaces h q)" using n e(3) unfolding before by blast
      have c: "defaults n \<noteq> None" using n e(4) by blast
      from that a b have "defaults n = None" by blast
      with c show False by contradiction
    qed
    then show ?thesis by (simp add: ks)
  qed
qed

theorem from_name_keys_witness:
  "result_namespaces (from_name empty_heap (Str ''t'') [''database'', ''table'']
      (CHR 0x22) (CHR ''.'') Map.empty) = Inr [''database'', ''table'']
   \<and> result_namespaces (from_name (snd table_only) (Parsed (fst table_only))
      [''database'', ''table''] (CHR 0x22) (CHR ''.'') Map.empty)
     = Inr (namespaces (snd table_only) (fst table_only))"
proof -
  have l: "length (findall (CHR ''.'') (CHR 0x22) ''t'') \<le> length [''database'', ''table'']"
    by simp
  obtain p h' where r: "from_name empty_heap (Str ''t'') [''database'', ''table'']
      (CHR 0x22) (CHR ''.'') Map.empty = Inr (p, h')"
    using from_name_result [OF parse_name_Str [OF l]] by blast
  have d: "distinct [''database'', ''table'']" by simp
  have "from_name empty_heap (Str ''t'') [''database'', ''table''] (CHR 0x22) (CHR ''.'') Map.empty
          = Inr (p, h') \<longrightarrow>
        namespaces h' p = rev (remdups (rev [''database'', ''table'']))
        \<and> (distinct [''database'', ''table''] \<longrightarrow> namespaces h' p = [''database'', ''table''])"
    by (rule from_name_keys [THEN conjunct1])
  with r d have 1: "namespaces h' p = [''database'', ''table'']"
    by blast
  have pn: "parse_name (snd table_only) (Parsed (fst table_only)) [''database'', ''table'']
      (CHR 0x22) (CHR ''.'') = Inr (0, snd table_only)"
    by (simp add: parse_name_Parsed namespaces_def od_keys_def table_only_eq)
  obtain p2 h2 where r2: "from_name (snd table_only) (Parsed (fst table_only))
      [''database'', ''table''] (CHR 0x22) (CHR ''.'') Map.empty = Inr (p2, h2)"
    using from_name_result [OF pn] by blast
  note parsed_case = from_name_keys [of "snd table_only" _ "[''database'', ''table'']" "CHR 0x22"
      "CHR ''.''" Map.empty p2 h2 "fst table_only", THEN conjunct2, rule_format, OF r2]
  have 2: "namespaces h2 p2 = namespaces (snd table_only) (fst table_only)"
    by (rule parsed_case [THEN conjunct2, THEN conjunct2, THEN conjunct2, THEN conjunct2,
          rule_format]) simp
  show ?thesis using 1 2 by (simp add: result_namespaces_def r r2)
qed

section \<open>Rendering the name\<close>

lemma slash_pair_eq:
  "fst slash_pair = \<lparr>names = 0, quote_char = CHR 0x22, separator = CHR ''/''\<rparr>"
  "deref (snd slash_pair) 0 = [(''a'', Some ''x''), (''b'', Some ''y'')]"
  by (simp_all add: slash_pair_def construct_def alloc_def empty_heap_def
        ParsedNamespaces_init_def deref_def)

text \<open>
  Claim C2 says that \<^verbatim>\<open>name\<close> joins the quoted components with quote character,
  separator, quote character, for any configured separator. The code writes a full stop
  between the quote characters whatever the separator of the instance is. For the instance
  \<^verbatim>\<open>ParsedNamespaces(OrderedDict([('a', 'x'), ('b', 'y')]), separator='/')\<close> the code
  renders \<^verbatim>\<open>"x"."y"\<close> where the claim (\<open>name_spec\<close>) requires \<^verbatim>\<open>"x"/"y"\<close>, and so does
  the instance parsed from \<^verbatim>\<open>x/y\<close> with separator \<^verbatim>\<open>/\<close>.
\<close>

theorem name_ignores_the_separator:
  \<open>name (snd slash_pair) (fst slash_pair) = ''"x"."y"''
   \<and> name_spec (snd slash_pair) (fst slash_pair) = ''"x"/"y"''
   \<and> result_name (from_name empty_heap (Str ''x/y'') [''a'', ''b''] (CHR 0x22) (CHR ''/'') Map.empty)
       = Inr ''"x"."y"''\<close>
proof (intro conjI)
  show \<open>name (snd slash_pair) (fst slash_pair) = ''"x"."y"''\<close>
    by (simp add: name_def slash_pair_eq)
  show \<open>name_spec (snd slash_pair) (fst slash_pair) = ''"x"/"y"''\<close>
    by (simp add: name_spec_def slash_pair_eq)
  have l: "length (findall (CHR ''/'') (CHR 0x22) ''x/y'') \<le> length [''a'', ''b'']"
    by simp
  show \<open>result_name (from_name empty_heap (Str ''x/y'') [''a'', ''b''] (CHR 0x22) (CHR ''/'') Map.empty)
       = Inr ''"x"."y"''\<close>
    unfolding result_name_def from_name_result [OF parse_name_Str [OF l]]
    by (simp add: name_def deref_store_same deref_alloc apply_defaults_empty OrderedDict_def)
qed

text \<open>
  With the separator \<^verbatim>\<open>.\<close> the code renders what the specification describes: the
  resolved values in order, each in quote characters, joined by the separator, and the
  empty string when no value is resolved.
\<close>

theorem name_agrees_for_dot:
  "separator self = CHR ''.'' \<Longrightarrow> name h self = name_spec h self"
  by (simp add: name_def name_spec_def Let_def)

theorem name_agrees_for_dot_witness:
  "name (snd table_only) (fst table_only) = name_spec (snd table_only) (fst table_only)"
proof -
  have "separator (fst table_only) = CHR ''.''" by (simp add: table_only_eq)
  then show ?thesis by (rule name_agrees_for_dot)
qed

section \<open>Quoted components\<close>

text \<open>
  Claim C7 says that a span between two quote characters is one component, its content
  taken verbatim. The example of the claim holds: \<^verbatim>\<open>"my.table"\<close> gives the one component
  \<^verbatim>\<open>my.table\<close>. But the pattern for the content is \<^verbatim>\<open>[^`]*?\<close>, whatever the quote
  character is, so a quoted span that holds a backquote is not matched: \<^verbatim>\<open>"a.`b"\<close>
  gives the two components \<^verbatim>\<open>a\<close> and \<^verbatim>\<open>`b\<close>, and \<^verbatim>\<open>from_name\<close> with a schema of
  length 1 fails on it.
\<close>

theorem quoted_span_with_backquote:
  \<open>findall (CHR ''.'') (CHR 0x22) ''"my.table"'' = [''my.table'']
   \<and> findall (CHR ''.'') (CHR 0x22) ''"a.`b"'' = [''a'', ''`b'']
   \<and> result_dict (from_name empty_heap (Str ''"a.`b"'') [''table''] (CHR 0x22) (CHR ''.'') Map.empty)
       = Inl (TooManyNamespaces (too_many_message ''"a.`b"'' (CHR ''.'') [''table'']))\<close>
proof (intro conjI)
  show \<open>findall (CHR ''.'') (CHR 0x22) ''"my.table"'' = [''my.table'']\<close>
    by (simp add: backquote_def)
  show t: \<open>findall (CHR ''.'') (CHR 0x22) ''"a.`b"'' = [''a'', ''`b'']\<close>
    by (simp add: backquote_def)
  have l: \<open>length [''table''] < length (findall (CHR ''.'') (CHR 0x22) ''"a.`b"'')\<close>
    unfolding t by simp
  show \<open>result_dict (from_name empty_heap (Str ''"a.`b"'') [''table''] (CHR 0x22) (CHR ''.'') Map.empty)
       = Inl (TooManyNamespaces (too_many_message ''"a.`b"'' (CHR ''.'') [''table'']))\<close>
    by (simp add: result_dict_def from_name_def parse_name_Str_overflow [OF l] del: findall.simps)
qed

lemma quoted_span_closed:
  "qc \<notin> set content \<Longrightarrow> backquote \<notin> set content \<Longrightarrow>
   quoted_span qc (content @ qc # rest) = Some (content, rest)"
  by (induction content) auto

lemma findall_quoted:
  "qc \<notin> set content \<Longrightarrow> backquote \<notin> set content \<Longrightarrow>
   findall sep qc (qc # content @ qc # rest) = content # findall sep qc rest"
  by (simp add: quoted_span_closed)

text \<open>
  A quoted span whose content holds neither the quote character nor a backquote is one
  component, taken verbatim, wherever it stands in the name and whatever else the content
  holds (the separator included).
\<close>

theorem quoted_component:
  assumes "qc \<notin> set content" and "backquote \<notin> set content"
  shows "findall sep qc (qc # content @ qc # rest) = content # findall sep qc rest"
  using assms by (rule findall_quoted)

theorem quoted_component_witness:
  \<open>findall (CHR ''.'') (CHR 0x22) ''"my.table".x'' = [''my.table'', ''x'']\<close>
proof -
  have a: \<open>CHR 0x22 \<notin> set ''my.table''\<close> by simp
  have b: \<open>backquote \<notin> set ''my.table''\<close> by (simp add: backquote_def)
  have \<open>findall (CHR ''.'') (CHR 0x22) (CHR 0x22 # ''my.table'' @ CHR 0x22 # ''.x'')
      = ''my.table'' # findall (CHR ''.'') (CHR 0x22) ''.x''\<close>
    using quoted_component [OF a b] .
  then show ?thesis by simp
qed

section \<open>Rendering and parsing again\<close>

lemma reparse_overflow:
  "length (namespaces h p) < length (findall (separator p) (quote_char p) (name h p)) \<Longrightarrow>
   result_dict (reparse h p) =
     Inl (TooManyNamespaces (too_many_message (name h p) (separator p) (namespaces h p)))"
  by (simp add: reparse_def result_dict_def from_name_def parse_name_Str_overflow)

text \<open>
  Claim C8 says that a fully resolved instance, rendered and parsed again with its own
  namespaces, quote character and separator, gives the same values. Two instances that
  \<^verbatim>\<open>from_name\<close> returns break it. The one parsed from \<^verbatim>\<open>x/y\<close> with separator \<^verbatim>\<open>/\<close>
  renders as \<^verbatim>\<open>"x"."y"\<close>, where parsing finds the three components \<^verbatim>\<open>x\<close>, \<^verbatim>\<open>.\<close>,
  \<^verbatim>\<open>y\<close>. The one parsed from \<^verbatim>\<open>a`b.c\<close> with the default separator renders as
  \<^verbatim>\<open>"a`b"."c"\<close>, where the backquote keeps the first quoted span from matching and
  parsing finds \<^verbatim>\<open>a`b\<close>, \<^verbatim>\<open>.\<close>, \<^verbatim>\<open>c\<close>. Both re-parses fail with the error for too
  many namespaces.
\<close>

theorem round_trip_fails:
  \<open>result_dict (from_name empty_heap (Str ''x/y'') [''a'', ''b''] (CHR 0x22) (CHR ''/'') Map.empty)
     = Inr [(''a'', Some ''x''), (''b'', Some ''y'')]
   \<and> result_reparse (from_name empty_heap (Str ''x/y'') [''a'', ''b''] (CHR 0x22) (CHR ''/'') Map.empty)
     = Inl (TooManyNamespaces (too_many_message ''"x"."y"'' (CHR ''/'') [''a'', ''b'']))
   \<and> result_dict (from_name empty_heap (Str ''a`b.c'') [''x'', ''y''] (CHR 0x22) (CHR ''.'') Map.empty)
     = Inr [(''x'', Some ''a`b''), (''y'', Some ''c'')]
   \<and> result_reparse (from_name empty_heap (Str ''a`b.c'') [''x'', ''y''] (CHR 0x22) (CHR ''.'') Map.empty)
     = Inl (TooManyNamespaces (too_many_message ''"a`b"."c"'' (CHR ''.'') [''x'', ''y'']))\<close>
proof -
  have l1: "length (findall (CHR ''/'') (CHR 0x22) ''x/y'') \<le> length [''a'', ''b'']"
    by simp
  note r1 = from_name_result [OF parse_name_Str [OF l1], of empty_heap Map.empty]
  have l2: "length (findall (CHR ''.'') (CHR 0x22) ''a`b.c'') \<le> length [''x'', ''y'']"
    by simp
  note r2 = from_name_result [OF parse_name_Str [OF l2], of empty_heap Map.empty]
  have d1: \<open>result_dict (from_name empty_heap (Str ''x/y'') [''a'', ''b''] (CHR 0x22) (CHR ''/'') Map.empty)
     = Inr [(''a'', Some ''x''), (''b'', Some ''y'')]\<close>
    unfolding result_dict_def r1
    by (simp add: deref_store_same deref_alloc apply_defaults_empty OrderedDict_def)
  have d2: \<open>result_dict (from_name empty_heap (Str ''a`b.c'') [''x'', ''y''] (CHR 0x22) (CHR ''.'') Map.empty)
     = Inr [(''x'', Some ''a`b''), (''y'', Some ''c'')]\<close>
    unfolding result_dict_def r2
    by (simp add: deref_store_same deref_alloc apply_defaults_empty OrderedDict_def)
  have p1: \<open>result_reparse (from_name empty_heap (Str ''x/y'') [''a'', ''b''] (CHR 0x22) (CHR ''/'') Map.empty)
     = Inl (TooManyNamespaces (too_many_message ''"x"."y"'' (CHR ''/'') [''a'', ''b'']))\<close>
    unfolding result_reparse_def r1
    by (simp add: reparse_def result_dict_def from_name_def parse_name_def name_def namespaces_def
          od_keys_def deref_store_same deref_alloc apply_defaults_empty OrderedDict_def
          backquote_def)
  have p2: \<open>result_reparse (from_name empty_heap (Str ''a`b.c'') [''x'', ''y''] (CHR 0x22) (CHR ''.'') Map.empty)
     = Inl (TooManyNamespaces (too_many_message ''"a`b"."c"'' (CHR ''.'') [''x'', ''y'']))\<close>
    unfolding result_reparse_def r2
    by (simp add: reparse_def result_dict_def from_name_def parse_name_def name_def namespaces_def
          od_keys_def deref_store_same deref_alloc apply_defaults_empty OrderedDict_def
          backquote_def)
  show ?thesis using d1 d2 p1 p2 by blast
qed

lemma findall_skip_separator:
  "sep \<noteq> qc \<Longrightarrow> findall sep qc (sep # rest) = findall sep qc rest"
  by simp

lemma render_Cons:
  "qc # join [qc, c, qc] (v # vs) @ [qc] =
     qc # v @ qc # (if vs = [] then [] else c # (qc # join [qc, c, qc] vs @ [qc]))"
  by (cases vs) simp_all

lemma findall_render:
  assumes "sep \<noteq> qc" and "\<forall>v \<in> set vals. qc \<notin> set v \<and> backquote \<notin> set v" and "vals \<noteq> []"
  shows "findall sep qc (qc # join [qc, sep, qc] vals @ [qc]) = vals"
  using assms(2,3)
proof (induction vals)
  case Nil
  then show ?case by simp
next
  case (Cons v vs)
  have v: "qc \<notin> set v" "backquote \<notin> set v" using Cons.prems by simp_all
  show ?case
  proof (cases "vs = []")
    case True
    have "findall sep qc (qc # v @ qc # []) = v # findall sep qc []"
      using v by (rule findall_quoted)
    then show ?thesis using True by simp
  next
    case False
    let ?rest = "qc # join [qc, sep, qc] vs @ [qc]"
    have ih: "findall sep qc ?rest = vs"
      using Cons False by simp
    have "findall sep qc (qc # join [qc, sep, qc] (v # vs) @ [qc])
        = findall sep qc (qc # v @ qc # sep # ?rest)"
      using False by (simp only: render_Cons if_False)
    also have "\<dots> = v # findall sep qc (sep # ?rest)"
      using v by (rule findall_quoted)
    also have "findall sep qc (sep # ?rest) = findall sep qc ?rest"
      using assms(1) by (rule findall_skip_separator)
    finally show ?thesis by (simp only: ih)
  qed
qed

lemma resolved_values_all:
  "\<forall>(k, v) \<in> set d. \<exists>s. v = Some s \<and> s \<noteq> [] \<Longrightarrow> map Some (resolved_values d) = map snd d"
  by (induction d) auto

lemma set_resolved_values:
  "s \<in> set (resolved_values d) \<Longrightarrow> \<exists>k. (k, Some s) \<in> set d"
proof (induction d)
  case Nil
  then show ?case by simp
next
  case (Cons a d)
  obtain k v where a: "a = (k, v)" by (cases a)
  show ?case
  proof (cases "s \<in> set (resolved_values d)")
    case True
    then obtain k' where "(k', Some s) \<in> set d" using Cons.IH by blast
    then show ?thesis by auto
  next
    case False
    with Cons.prems have "v = Some s"
      by (auto simp: a split: option.splits if_splits)
    then show ?thesis by (auto simp: a)
  qed
qed

lemma length_resolved_values:
  "\<forall>(k, v) \<in> set d. \<exists>s. v = Some s \<and> s \<noteq> [] \<Longrightarrow> length (resolved_values d) = length d"
proof -
  assume "\<forall>(k, v) \<in> set d. \<exists>s. v = Some s \<and> s \<noteq> []"
  then have "length (map Some (resolved_values d)) = length (map snd d)"
    by (simp only: resolved_values_all)
  then show ?thesis by simp
qed

text \<open>
  The round trip holds where neither defect shows: for an instance with separator \<^verbatim>\<open>.\<close>,
  a quote character other than \<^verbatim>\<open>.\<close>, distinct keys, and every value a non-empty string
  without quote character and without backquote, parsing the rendered name against the
  instance's own namespaces gives the instance's mapping back.
\<close>

theorem round_trip_dot:
  assumes sep: "separator p = CHR ''.''" and qc: "quote_char p \<noteq> CHR ''.''"
    and dist: "distinct (namespaces h p)"
    and full: "\<forall>(k, v) \<in> set (deref h (names p)).
                 \<exists>s. v = Some s \<and> s \<noteq> [] \<and> quote_char p \<notin> set s \<and> backquote \<notin> set s"
  shows "result_dict (reparse h p) = Inr (deref h (names p))"
proof -
  let ?d = "deref h (names p)"
  let ?vals = "resolved_values ?d"
  have all: "\<forall>(k, v) \<in> set ?d. \<exists>s. v = Some s \<and> s \<noteq> []"
    using full by fastforce
  have ok: "\<forall>v \<in> set ?vals. quote_char p \<notin> set v \<and> backquote \<notin> set v"
  proof
    fix v assume "v \<in> set ?vals"
    then obtain k where "(k, Some v) \<in> set ?d" using set_resolved_values by blast
    with full show "quote_char p \<notin> set v \<and> backquote \<notin> set v" by fastforce
  qed
  have toks: "findall (separator p) (quote_char p) (name h p) = ?vals"
  proof (cases "?vals = []")
    case True
    then show ?thesis by (simp add: name_def)
  next
    case False
    have "findall (CHR ''.'') (quote_char p)
            (quote_char p # join [quote_char p, CHR ''.'', quote_char p] ?vals @ [quote_char p]) = ?vals"
      using qc ok False by (intro findall_render) auto
    with False show ?thesis by (simp add: name_def sep del: findall.simps)
  qed
  have len: "length ?vals = length (namespaces h p)"
    using length_resolved_values [OF all] by (simp add: namespaces_def od_keys_def)
  have z: "zip (namespaces h p) (map Some ?vals) = ?d"
    by (simp add: resolved_values_all [OF all] namespaces_def od_keys_def zip_map_fst_snd)
  have "result_dict (reparse h p) =
      Inr (apply_defaults Map.empty (rev (namespaces h p))
             (OrderedDict (rev (align (rev (namespaces h p)) (rev ?vals)))))"
    unfolding reparse_def using from_name_Str [of "separator p" "quote_char p" "name h p"
        "namespaces h p" h Map.empty] len toks
    by simp
  also have "\<dots> = Inr (OrderedDict (zip (namespaces h p) (map Some ?vals)))"
    using len by (simp add: apply_defaults_empty rev_align)
  also have "\<dots> = Inr ?d"
    unfolding z using dist by (simp add: OrderedDict_distinct namespaces_def od_keys_def)
  finally show ?thesis .
qed

theorem round_trip_dot_witness:
  "result_dict (reparse
      (snd (construct [(''a'', Some ''x''), (''b'', Some ''y'')] None (CHR 0x22) (CHR ''.'')))
      (fst (construct [(''a'', Some ''x''), (''b'', Some ''y'')] None (CHR 0x22) (CHR ''.''))))
    = Inr [(''a'', Some ''x''), (''b'', Some ''y'')]"
proof -
  let ?X = "construct [(''a'', Some ''x''), (''b'', Some ''y'')] None (CHR 0x22) (CHR ''.'')"
  have p: "fst ?X = \<lparr>names = 0, quote_char = CHR 0x22, separator = CHR ''.''\<rparr>"
    and d: "deref (snd ?X) 0 = [(''a'', Some ''x''), (''b'', Some ''y'')]"
    by (simp_all add: construct_def alloc_def empty_heap_def ParsedNamespaces_init_def deref_def)
  have d': "deref (snd ?X) (names (fst ?X)) = [(''a'', Some ''x''), (''b'', Some ''y'')]"
    by (simp add: p d)
  have 1: "separator (fst ?X) = CHR ''.''" and 2: "quote_char (fst ?X) \<noteq> CHR ''.''"
    by (simp_all add: p)
  have 3: "distinct (namespaces (snd ?X) (fst ?X))"
    by (simp add: namespaces_def od_keys_def d')
  have 4: "\<forall>(k, v) \<in> set (deref (snd ?X) (names (fst ?X))).
             \<exists>s. v = Some s \<and> s \<noteq> [] \<and> quote_char (fst ?X) \<notin> set s \<and> backquote \<notin> set s"
    unfolding d' by (simp add: p backquote_def)
  show ?thesis
    using round_trip_dot [OF 1 2 3 4] unfolding d' .
qed

end
